theory Spec2Isabelle
  imports Main "HOL-Library.AList" "HOL-Library.Char_ord" "HOL-Library.List_Lexorder"
    "HOL-Library.Sublist"
begin

section \<open>Values exchanged with the HTTP layer\<close>

text \<open>
  The handlers of \<^verbatim>\<open>api.py\<close> return Python dictionaries that FastAPI serialises to
  JSON. A dictionary is an association list in insertion order whose keys are distinct;
  \<open>AList.update\<close> is Python's \<^verbatim>\<open>d[k] = v\<close> (overwrite in place, or append a new key),
  \<open>map_of\<close> is the lookup and \<open>length\<close> is \<^verbatim>\<open>len\<close>.
\<close>

datatype json = JNull | JBool bool | JStr string | JArr "json list" | JObj "(string \<times> json) list"

type_synonym pydict = "(string \<times> json) list"

section \<open>Decimal rendering of the registry size\<close>

text \<open>
  \<^verbatim>\<open>f"query_{len(active_tasks) + 1}"\<close> formats a non-negative integer in decimal,
  most significant digit first and without leading zeros.
\<close>

definition digit_char :: "nat \<Rightarrow> char" where
  "digit_char d = ''0123456789'' ! d"

fun str_nat :: "nat \<Rightarrow> string" where
  "str_nat n = (if n < 10 then [digit_char n] else str_nat (n div 10) @ [digit_char (n mod 10)])"

declare str_nat.simps [simp del]

section \<open>The file system below the workspace directory\<close>

text \<open>
  A path names nothing, something that \<^verbatim>\<open>os.path.isdir\<close> rejects (a regular file, say),
  or a directory with named entries. The entries are kept in the order \<^verbatim>\<open>os.listdir\<close>
  reports them, which is arbitrary. The tree is finite and every directory in it can be
  listed: a cycle of symbolic links or a directory without read permission is outside
  the model.
\<close>

datatype fs_node = File | Dir "(string \<times> fs_node) list"

section \<open>The state of the service\<close>

text \<open>
  \<open>active_tasks\<close> is the module-level dictionary of task records. \<open>scheduled\<close> holds
  the calls \<^verbatim>\<open>run_agent(query_id, query_text)\<close> that were handed to
  \<^verbatim>\<open>BackgroundTasks.add_task\<close> and have not run yet. \<open>agent_calls\<close> logs the query
  texts for which the body of the \<^verbatim>\<open>try\<close> block of \<^verbatim>\<open>run_agent\<close> was entered.
  \<open>workspace_dir\<close> is the constant \<^verbatim>\<open>str(WORKSPACE_DIR)\<close>, which depends on where the
  module is installed. \<open>workspace\<close> is what that path leads to on disk, through a
  symbolic link if the path is one, and \<open>workspace_is_link\<close> says whether the path itself
  is a symbolic link; a link whose target is missing has \<open>workspace = None\<close>.
\<close>

record api_state =
  active_tasks :: "(string \<times> pydict) list"
  scheduled :: "(string \<times> string) list"
  agent_calls :: "string list"
  workspace_dir :: string
  workspace :: "fs_node option"
  workspace_is_link :: bool

text \<open>
  When the module is loaded the registry is empty and
  \<^verbatim>\<open>os.makedirs(WORKSPACE_DIR, exist_ok=True)\<close> has run, so the workspace is a directory,
  with whatever an earlier run left in it. The runs start from a workspace that is a
  directory proper; the event \<open>Tool_effect\<close> below reaches every other state of the path.
\<close>

definition initial_state :: "string \<Rightarrow> (string \<times> fs_node) list \<Rightarrow> api_state" where
  "initial_state dir entries =
     \<lparr>active_tasks = [], scheduled = [], agent_calls = [],
      workspace_dir = dir, workspace = Some (Dir entries), workspace_is_link = False\<rparr>"

section \<open>The agent as an external collaborator\<close>

text \<open>
  What the body of the \<^verbatim>\<open>try\<close> block does is outside the repository: it returns a text,
  raises an exception derived from \<^verbatim>\<open>Exception\<close> whose \<^verbatim>\<open>str\<close> is the given message, or
  raises one derived from \<^verbatim>\<open>BaseException\<close> only (\<^verbatim>\<open>SystemExit\<close>,
  \<^verbatim>\<open>KeyboardInterrupt\<close>, \<^verbatim>\<open>asyncio.CancelledError\<close>), which
  \<^verbatim>\<open>except Exception\<close> does not catch.
\<close>

datatype agent_outcome = Returns string | Raises string | Raises_base string

section \<open>The handlers\<close>

text \<open>
  \<^verbatim>\<open>run_agent\<close>. The first argument is the value of
  \<^verbatim>\<open>os.getenv("ANTHROPIC_API_KEY")\<close>; \<^verbatim>\<open>not api_key\<close> holds for \<^verbatim>\<open>None\<close> and for the
  empty string. Writing the same value back into \<^verbatim>\<open>os.environ\<close> changes nothing. The
  first component of the result is the exception that leaves the function, if any.
\<close>

definition run_agent ::
  "string option \<Rightarrow> agent_outcome \<Rightarrow> string \<Rightarrow> string \<Rightarrow> api_state \<Rightarrow> string option \<times> api_state" where
  "run_agent api_key outcome query_id query_text st =
     (if api_key = None \<or> api_key = Some [] then
        (None, st\<lparr>active_tasks := AList.update query_id
           [(''status'', JStr ''error''),
            (''result'', JStr ''Error: ANTHROPIC_API_KEY not found in .env file'')]
           (active_tasks st)\<rparr>)
      else
        let st1 = st\<lparr>agent_calls := agent_calls st @ [query_text]\<rparr> in
        (case outcome of
           Returns result \<Rightarrow>
             (None, st1\<lparr>active_tasks := AList.update query_id
                [(''status'', JStr ''completed''), (''result'', JStr result)] (active_tasks st1)\<rparr>)
         | Raises e \<Rightarrow>
             (None, st1\<lparr>active_tasks := AList.update query_id
                [(''status'', JStr ''error''), (''result'', JStr (''Error: '' @ e))] (active_tasks st1)\<rparr>)
         | Raises_base e \<Rightarrow> (Some e, st1)))"

text \<open>
  \<^verbatim>\<open>create_query\<close>: the identifier is computed from the size of the registry, the
  record is stored, the background call is scheduled, and the response is returned.
\<close>

definition create_query :: "string \<Rightarrow> api_state \<Rightarrow> pydict \<times> api_state" where
  "create_query text st =
     (let query_id = ''query_'' @ str_nat (length (active_tasks st) + 1);
          st1 = st\<lparr>active_tasks := AList.update query_id
                  [(''status'', JStr ''processing''), (''result'', JNull)] (active_tasks st)\<rparr>;
          st2 = st1\<lparr>scheduled := scheduled st1 @ [(query_id, text)]\<rparr>
      in ([(''query_id'', JStr query_id), (''status'', JStr ''processing'')], st2))"

text \<open>\<^verbatim>\<open>get_result\<close>: a read of the registry.\<close>

definition get_result :: "string \<Rightarrow> api_state \<Rightarrow> pydict" where
  "get_result query_id st =
     (case map_of (active_tasks st) query_id of
        None \<Rightarrow> [(''status'', JStr ''not_found'')]
      | Some task \<Rightarrow> task)"

text \<open>
  \<^verbatim>\<open>os.path.join\<close> for two components on a POSIX system.
\<close>

definition path_join :: "string \<Rightarrow> string \<Rightarrow> string" where
  "path_join a b =
     (if b \<noteq> [] \<and> hd b = CHR ''/'' then b
      else if a = [] \<or> last a = CHR ''/'' then a @ b
      else a @ ''/'' @ b)"

text \<open>
  \<^verbatim>\<open>get_directory_tree\<close>, the local function of \<^verbatim>\<open>workspace_info\<close>. The argument
  \<open>path\<close> is the listing of the directory that the Python \<^verbatim>\<open>path\<close> names:
  \<^verbatim>\<open>os.listdir(path)\<close> is \<open>map fst path\<close>, and \<^verbatim>\<open>os.path.isdir\<close> of an entry holds
  when the entry is a directory. \<^verbatim>\<open>sorted\<close> orders strings lexicographically by
  character code, a proper prefix first, which is the order of \<open>string\<close> here.
\<close>

function get_directory_tree :: "(string \<times> fs_node) list \<Rightarrow> string \<Rightarrow> json list" where
  "get_directory_tree path rel_path =
     map (\<lambda>item.
        let item_rel_path = (if rel_path \<noteq> [] then path_join rel_path item else item) in
        case map_of path item of
          Some (Dir sub) \<Rightarrow>
            JObj [(''name'', JStr item), (''path'', JStr item_rel_path),
                  (''type'', JStr ''directory''),
                  (''children'', JArr (get_directory_tree sub item_rel_path))]
        | _ \<Rightarrow>
            JObj [(''name'', JStr item), (''path'', JStr item_rel_path),
                  (''type'', JStr ''file'')])
      (sort (map fst path))"
  by pat_completeness auto
termination
proof -
  have smaller: "size_list (size_prod (\<lambda>_. 0) size) sub
                   < size_list (size_prod (\<lambda>_. 0) size) path"
    if "(item, Dir sub) \<in> set path" for item :: string and sub path
    using that by (induction path) auto
  show ?thesis
    by (relation "measure (\<lambda>(path, rel_path). size_list (size_prod (\<lambda>_. 0) size) path)")
       (auto dest!: map_of_SomeD smaller)
qed

declare get_directory_tree.simps [simp del]

text \<open>
  \<^verbatim>\<open>workspace_info\<close>. \<^verbatim>\<open>os.path.exists\<close> and \<^verbatim>\<open>os.listdir\<close> follow a symbolic link, so
  they see \<open>workspace\<close> whether or not the path is a link. When the path exists and is not
  a directory, \<^verbatim>\<open>os.listdir\<close> raises and nothing in the handler catches it.
\<close>

definition workspace_info :: "api_state \<Rightarrow> string + pydict" where
  "workspace_info st =
     (let workspace_exists = (workspace st \<noteq> None) in
      case workspace st of
        None \<Rightarrow>
          Inr [(''workspace_path'', JStr (workspace_dir st)),
               (''workspace_exists'', JBool workspace_exists),
               (''files'', JArr [])]
      | Some (Dir entries) \<Rightarrow>
          Inr [(''workspace_path'', JStr (workspace_dir st)),
               (''workspace_exists'', JBool workspace_exists),
               (''files'', JArr (get_directory_tree entries []))]
      | Some File \<Rightarrow> Inl ''NotADirectoryError'')"

text \<open>
  The two library calls of \<^verbatim>\<open>reset_workspace\<close>. Each either succeeds or raises an
  \<^verbatim>\<open>OSError\<close>, and the handler puts \<^verbatim>\<open>str(e)\<close> into its answer. A call fails when the
  state of the path forces it to:
  \<^item> \<^verbatim>\<open>shutil.rmtree\<close> of a path that leads nowhere, of a symbolic link (the library
    refuses with ``Cannot call rmtree on a symbolic link''), or of something that is
    not a directory;
  \<^item> \<^verbatim>\<open>os.makedirs(..., exist_ok=True)\<close> over something that is not a directory, or over
    a symbolic link whose target is missing (``File exists'' in both cases).

  The wording of \<^verbatim>\<open>str(e)\<close> for these belongs to the library and the platform, so
  \<open>error_text\<close> supplies it. A call also fails when the operating system refuses for a
  reason outside the tree (permissions, a busy file, a full disk): \<open>rmtree_fault\<close> and
  \<open>makedirs_fault\<close> inject such a failure with its message. A failing \<^verbatim>\<open>rmtree\<close> of a
  directory may already have removed part of the tree, so its fault also gives what is
  left. The refusal of a symbolic link comes before any other work of \<^verbatim>\<open>rmtree\<close>.
\<close>

datatype os_error =
    Rmtree_of_nothing
  | Rmtree_of_link
  | Rmtree_of_file
  | Makedirs_over_file
  | Makedirs_over_dangling_link

record os_faults =
  rmtree_fault :: "(string \<times> fs_node option) option"
  makedirs_fault :: "string option"
  error_text :: "os_error \<Rightarrow> string"

datatype os_result = Done "fs_node option" | Failed string "fs_node option"

definition rmtree :: "os_faults \<Rightarrow> bool \<Rightarrow> fs_node option \<Rightarrow> os_result" where
  "rmtree os is_link ws =
     (case ws of
        None \<Rightarrow> Failed (error_text os Rmtree_of_nothing) ws
      | Some node \<Rightarrow>
          if is_link then Failed (error_text os Rmtree_of_link) ws
          else
            (case rmtree_fault os of
               Some (e, left) \<Rightarrow> Failed e left
             | None \<Rightarrow>
                 (case node of
                    File \<Rightarrow> Failed (error_text os Rmtree_of_file) ws
                  | Dir entries \<Rightarrow> Done None)))"

definition makedirs_exist_ok :: "os_faults \<Rightarrow> bool \<Rightarrow> fs_node option \<Rightarrow> os_result" where
  "makedirs_exist_ok os is_link ws =
     (case makedirs_fault os of
        Some e \<Rightarrow> Failed e ws
      | None \<Rightarrow>
          (case ws of
             None \<Rightarrow>
               if is_link then Failed (error_text os Makedirs_over_dangling_link) ws
               else Done (Some (Dir []))
           | Some File \<Rightarrow> Failed (error_text os Makedirs_over_file) ws
           | Some (Dir entries) \<Rightarrow> Done ws))"

text \<open>
  \<^verbatim>\<open>reset_workspace\<close>: every exception of the two calls is caught in the handler.
  \<^verbatim>\<open>os.path.exists\<close> follows a symbolic link. Neither call turns the path into a link or
  a link into something else: \<^verbatim>\<open>rmtree\<close> refuses a link, and \<^verbatim>\<open>makedirs\<close> creates a
  directory only where the path leads nowhere and is no link.
\<close>

definition reset_workspace :: "os_faults \<Rightarrow> api_state \<Rightarrow> pydict \<times> api_state" where
  "reset_workspace os st =
     (case (if workspace st \<noteq> None then rmtree os (workspace_is_link st) (workspace st)
            else Done (workspace st)) of
        Failed e left \<Rightarrow>
          ([(''status'', JStr ''error''), (''message'', JStr (''Error resetting workspace: '' @ e))],
           st\<lparr>workspace := left\<rparr>)
      | Done ws1 \<Rightarrow>
          (case makedirs_exist_ok os (workspace_is_link st) ws1 of
             Failed e left \<Rightarrow>
               ([(''status'', JStr ''error''),
                 (''message'', JStr (''Error resetting workspace: '' @ e))],
                st\<lparr>workspace := left\<rparr>)
           | Done ws2 \<Rightarrow>
               ([(''status'', JStr ''success''),
                 (''message'', JStr (''Workspace at '' @ workspace_dir st @ '' has been reset''))],
                st\<lparr>workspace := ws2\<rparr>)))"

section \<open>The service as a transition system\<close>

text \<open>
  One event is one request handled to its response, one scheduled background call run to
  its end, or a change that a tool run by the agent makes to the workspace. The handlers
  other than \<^verbatim>\<open>run_agent\<close> do not await, so the event loop runs each of them without
  interleaving; \<^verbatim>\<open>run_agent\<close> touches the registry in one assignment only, and the event
  \<open>Run_background\<close> stands at the moment of that assignment. \<open>Run_background q\<close> runs
  the oldest scheduled call for the identifier \<open>q\<close> and is a no-op when there is none:
  a background call runs once, after it was scheduled.
\<close>

datatype event =
    Submit string
  | Poll string
  | Run_background string "string option" agent_outcome
  | Workspace_info
  | Reset_workspace os_faults
  | Tool_effect "fs_node option" bool

fun step :: "event \<Rightarrow> api_state \<Rightarrow> api_state" where
  "step (Submit text) st = snd (create_query text st)"
| "step (Poll query_id) st = st"
| "step (Run_background query_id api_key outcome) st =
     (case find (\<lambda>call. fst call = query_id) (scheduled st) of
        None \<Rightarrow> st
      | Some call \<Rightarrow>
          snd (run_agent api_key outcome (fst call) (snd call)
                 (st\<lparr>scheduled := remove1 call (scheduled st)\<rparr>)))"
| "step Workspace_info st = st"
| "step (Reset_workspace os) st = snd (reset_workspace os st)"
| "step (Tool_effect ws is_link) st = st\<lparr>workspace := ws, workspace_is_link := is_link\<rparr>"

fun exec :: "event list \<Rightarrow> api_state \<Rightarrow> api_state" where
  "exec [] st = st"
| "exec (e # es) st = exec es (step e st)"

text \<open>The identifiers that the submissions of a run returned, in order.\<close>

fun issued :: "event list \<Rightarrow> api_state \<Rightarrow> string list" where
  "issued [] st = []"
| "issued (Submit text # es) st =
     (case map_of (fst (create_query text st)) ''query_id'' of
        Some (JStr query_id) \<Rightarrow> query_id # issued es (step (Submit text) st)
      | _ \<Rightarrow> issued es (step (Submit text) st))"
| "issued (e # es) st = issued es (step e st)"

section \<open>Properties of records and of reachable states\<close>

text \<open>The three records that the handlers ever store.\<close>

definition task_shape :: "pydict \<Rightarrow> bool" where
  "task_shape task \<longleftrightarrow>
     task = [(''status'', JStr ''processing''), (''result'', JNull)] \<or>
     (\<exists>r. task = [(''status'', JStr ''completed''), (''result'', JStr r)]) \<or>
     (\<exists>r. task = [(''status'', JStr ''error''), (''result'', JStr r)])"

definition terminal :: "pydict \<Rightarrow> bool" where
  "terminal task \<longleftrightarrow>
     map_of task ''status'' = Some (JStr ''completed'') \<or>
     map_of task ''status'' = Some (JStr ''error'')"

text \<open>
  What holds in every state that the events reach from the initial one: the keys of the
  registry are \<^verbatim>\<open>query_1\<close> to \<^verbatim>\<open>query_n\<close> in this order, no identifier is scheduled
  twice, the record of a scheduled call is still the one that \<^verbatim>\<open>create_query\<close> stored,
  and every record has one of the three shapes.
\<close>

definition well_formed :: "api_state \<Rightarrow> bool" where
  "well_formed st \<longleftrightarrow>
     map fst (active_tasks st)
       = map (\<lambda>n. ''query_'' @ str_nat n) [1..<Suc (length (active_tasks st))] \<and>
     distinct (map fst (scheduled st)) \<and>
     (\<forall>call \<in> set (scheduled st).
        map_of (active_tasks st) (fst call)
          = Some [(''status'', JStr ''processing''), (''result'', JNull)]) \<and>
     (\<forall>task \<in> snd ` set (active_tasks st). task_shape task)"

section \<open>Reading the file tree of a response\<close>

text \<open>
  The field of a JSON object, the name an entry carries, and the path an entry of a
  directory must carry: the name itself at the top level (empty parent path), the join
  of the parent's path and the name below it.
\<close>

fun entry_field :: "string \<Rightarrow> json \<Rightarrow> json option" where
  "entry_field k (JObj kv) = map_of kv k"
| "entry_field k _ = None"

definition entry_name :: "json \<Rightarrow> string" where
  "entry_name e = (case entry_field ''name'' e of Some (JStr n) \<Rightarrow> n | _ \<Rightarrow> [])"

definition child_path :: "string \<Rightarrow> string \<Rightarrow> string" where
  "child_path parent name = (if parent = [] then name else path_join parent name)"

text \<open>
  A list of entries is a well-formed level of the tree under the parent path when the
  names ascend, every entry has its name and the path \<open>child_path\<close> gives, an entry
  without \<^verbatim>\<open>children\<close> has type \<^verbatim>\<open>file\<close>, and an entry with \<^verbatim>\<open>children\<close> has type
  \<^verbatim>\<open>directory\<close> and a list of children that is well-formed under the entry's path.
\<close>

function tree_ok :: "string \<Rightarrow> json list \<Rightarrow> bool" where
  "tree_ok parent es \<longleftrightarrow>
     sorted (map entry_name es) \<and>
     (\<forall>e \<in> set es.
        entry_field ''name'' e = Some (JStr (entry_name e)) \<and>
        entry_field ''path'' e = Some (JStr (child_path parent (entry_name e))) \<and>
        (case entry_field ''children'' e of
           None \<Rightarrow> entry_field ''type'' e = Some (JStr ''file'')
         | Some (JArr sub) \<Rightarrow>
             entry_field ''type'' e = Some (JStr ''directory'') \<and>
             tree_ok (child_path parent (entry_name e)) sub
         | Some _ \<Rightarrow> False))"
  by pat_completeness auto
termination
proof -
  have field: "size_list size sub < size e"
    if "entry_field k e = Some (JArr sub)" for k e sub
  proof (cases e)
    case (JObj kv)
    with that have "(k, JArr sub) \<in> set kv" by (auto dest: map_of_SomeD)
    then have "size_list size sub < size_list (size_prod (\<lambda>_. 0) size) kv"
      by (induction kv) auto
    with JObj show ?thesis by simp
  qed (use that in auto)
  have member: "size e \<le> size_list size es" if "e \<in> set es" for e :: json and es
    using that by (induction es) auto
  show ?thesis
    by (relation "measure (\<lambda>(parent, es). size_list size es)")
       (auto dest!: field member)
qed

declare tree_ok.simps [simp del]

text \<open>
  Two listings show the same directory when they differ only in the order in which
  \<^verbatim>\<open>os.listdir\<close> reports the names, at every level.
\<close>

function same_listing :: "(string \<times> fs_node) list \<Rightarrow> (string \<times> fs_node) list \<Rightarrow> bool" where
  "same_listing p p' \<longleftrightarrow>
     distinct (map fst p) \<and> distinct (map fst p') \<and> set (map fst p) = set (map fst p') \<and>
     (\<forall>item \<in> set (map fst p).
        case map_of p item of
          Some (Dir sub) \<Rightarrow>
            (case map_of p' item of Some (Dir sub') \<Rightarrow> same_listing sub sub' | _ \<Rightarrow> False)
        | _ \<Rightarrow> map_of p' item = map_of p item)"
  by pat_completeness auto
termination
proof -
  have smaller: "size_list (size_prod (\<lambda>_. 0) size) sub
                   < size_list (size_prod (\<lambda>_. 0) size) path"
    if "(item, Dir sub) \<in> set path" for item :: string and sub path
    using that by (induction path) auto
  show ?thesis
    by (relation "measure (\<lambda>(p, p'). size_list (size_prod (\<lambda>_. 0) size) p)")
       (auto dest!: map_of_SomeD smaller)
qed

declare same_listing.simps [simp del]

text \<open>The dictionary that one iteration of the loop of \<^verbatim>\<open>get_directory_tree\<close> appends.\<close>

definition tree_entry :: "(string \<times> fs_node) list \<Rightarrow> string \<Rightarrow> string \<Rightarrow> json" where
  "tree_entry path rel_path item =
     (case map_of path item of
        Some (Dir sub) \<Rightarrow>
          JObj [(''name'', JStr item), (''path'', JStr (child_path rel_path item)),
                (''type'', JStr ''directory''),
                (''children'', JArr (get_directory_tree sub (child_path rel_path item)))]
      | _ \<Rightarrow>
          JObj [(''name'', JStr item), (''path'', JStr (child_path rel_path item)),
                (''type'', JStr ''file'')])"

section \<open>Auxiliary facts\<close>

lemma digit_char_inj: "a < 10 \<Longrightarrow> b < 10 \<Longrightarrow> digit_char a = digit_char b \<Longrightarrow> a = b"
proof -
  assume "a < 10" "b < 10" "digit_char a = digit_char b"
  moreover have "distinct ''0123456789''" by simp
  ultimately show ?thesis
    unfolding digit_char_def by (simp add: nth_eq_iff_index_eq)
qed

lemma str_nat_nonempty: "str_nat n \<noteq> []"
  by (subst str_nat.simps) simp

lemma str_nat_inj: "str_nat n = str_nat m \<Longrightarrow> n = m"
proof (induction n arbitrary: m rule: str_nat.induct)
  case (1 n)
  show ?case
  proof (cases "n < 10")
    case True
    then have n: "str_nat n = [digit_char n]" by (subst str_nat.simps) simp
    show ?thesis
    proof (cases "m < 10")
      case True
      then have "str_nat m = [digit_char m]" by (subst str_nat.simps) simp
      with n 1(2) \<open>n < 10\<close> True show ?thesis by (auto dest: digit_char_inj)
    next
      case False
      then have "str_nat m = str_nat (m div 10) @ [digit_char (m mod 10)]"
        by (subst str_nat.simps) simp
      with n 1(2) show ?thesis using str_nat_nonempty[of "m div 10"] by auto
    qed
  next
    case False
    then have n: "str_nat n = str_nat (n div 10) @ [digit_char (n mod 10)]"
      by (subst str_nat.simps) simp
    show ?thesis
    proof (cases "m < 10")
      case True
      then have "str_nat m = [digit_char m]" by (subst str_nat.simps) simp
      with n 1(2) show ?thesis using str_nat_nonempty[of "n div 10"] by auto
    next
      case m: False
      then have "str_nat m = str_nat (m div 10) @ [digit_char (m mod 10)]"
        by (subst str_nat.simps) simp
      with n 1(2) have eq: "str_nat (n div 10) = str_nat (m div 10)"
        and d: "digit_char (n mod 10) = digit_char (m mod 10)" by auto
      from 1(1)[OF False eq] have "n div 10 = m div 10" .
      moreover from d have "n mod 10 = m mod 10" by (auto dest!: digit_char_inj[rotated 2])
      ultimately show ?thesis by (metis div_mult_mod_eq)
    qed
  qed
qed

lemma fresh_key:
  assumes "map fst al = map (\<lambda>n. ''query_'' @ str_nat n) [1..<Suc (length al)]"
  shows "''query_'' @ str_nat (length al + 1) \<notin> fst ` set al"
proof
  assume "''query_'' @ str_nat (length al + 1) \<in> fst ` set al"
  then have "''query_'' @ str_nat (length al + 1) \<in> set (map fst al)" by simp
  with assms obtain n where "n \<in> {1..<Suc (length al)}" "''query_'' @ str_nat (length al + 1) = ''query_'' @ str_nat n"
    by (metis (no_types, lifting) imageE list.set_map set_upt)
  then show False by (auto dest: str_nat_inj)
qed

lemma well_formed_initial: "well_formed (initial_state dir entries)"
  by (simp add: well_formed_def initial_state_def)

lemma update_fresh: "k \<notin> fst ` set al \<Longrightarrow> AList.update k v al = al @ [(k, v)]"
  by (induction al) auto

lemma create_query_fresh:
  assumes "well_formed st"
  defines "q \<equiv> ''query_'' @ str_nat (length (active_tasks st) + 1)"
  shows "q \<notin> fst ` set (active_tasks st)" and "q \<notin> fst ` set (scheduled st)"
proof -
  from assms have keys: "map fst (active_tasks st)
       = map (\<lambda>n. ''query_'' @ str_nat n) [1..<Suc (length (active_tasks st))]"
    by (simp add: well_formed_def)
  show fresh: "q \<notin> fst ` set (active_tasks st)" unfolding q_def using fresh_key[OF keys] .
  show "q \<notin> fst ` set (scheduled st)"
  proof
    assume "q \<in> fst ` set (scheduled st)"
    then obtain call where "call \<in> set (scheduled st)" "fst call = q" by auto
    with assms(1) have "map_of (active_tasks st) q \<noteq> None" by (auto simp: well_formed_def)
    with fresh show False by (simp add: map_of_eq_None_iff)
  qed
qed

lemma create_query_state:
  assumes "well_formed st"
  shows "snd (create_query text st) =
     st\<lparr>active_tasks := active_tasks st @
            [(''query_'' @ str_nat (length (active_tasks st) + 1),
              [(''status'', JStr ''processing''), (''result'', JNull)])],
         scheduled := scheduled st @ [(''query_'' @ str_nat (length (active_tasks st) + 1), text)]\<rparr>"
  using create_query_fresh(1)[OF assms]
  by (simp add: create_query_def Let_def update_fresh)

lemma well_formed_create_query:
  assumes "well_formed st"
  shows "well_formed (snd (create_query text st))"
proof -
  let ?q = "''query_'' @ str_nat (length (active_tasks st) + 1)"
  let ?p = "[(''status'', JStr ''processing''), (''result'', JNull)]"
  note fresh = create_query_fresh[OF assms]
  from assms have keys: "map fst (active_tasks st)
       = map (\<lambda>n. ''query_'' @ str_nat n) [1..<Suc (length (active_tasks st))]"
    and dist: "distinct (map fst (scheduled st))"
    and sch: "\<forall>call \<in> set (scheduled st). map_of (active_tasks st) (fst call) = Some ?p"
    and shp: "\<forall>task \<in> snd ` set (active_tasks st). task_shape task"
    by (simp_all add: well_formed_def)
  have 1: "map fst (active_tasks st @ [(?q, ?p)])
       = map (\<lambda>n. ''query_'' @ str_nat n) [1..<Suc (length (active_tasks st @ [(?q, ?p)]))]"
    using keys by simp
  have 2: "distinct (map fst (scheduled st @ [(?q, text)]))"
    using dist fresh(2) by simp
  have 3: "\<forall>call \<in> set (scheduled st @ [(?q, text)]).
       map_of (active_tasks st @ [(?q, ?p)]) (fst call) = Some ?p"
  proof
    fix call assume "call \<in> set (scheduled st @ [(?q, text)])"
    then consider "call \<in> set (scheduled st)" | "call = (?q, text)" by auto
    then show "map_of (active_tasks st @ [(?q, ?p)]) (fst call) = Some ?p"
    proof cases
      case 1
      with sch have "map_of (active_tasks st) (fst call) = Some ?p" by blast
      then show ?thesis by (simp add: map_add_Some_iff)
    next
      case 2
      from fresh(1) have "map_of (active_tasks st) ?q = None" by (simp add: map_of_eq_None_iff)
      with 2 show ?thesis by (simp add: map_add_Some_iff)
    qed
  qed
  have 4: "\<forall>task \<in> snd ` set (active_tasks st @ [(?q, ?p)]). task_shape task"
    using shp by (auto simp: task_shape_def)
  show ?thesis
    unfolding create_query_state[OF assms] well_formed_def
    using 1 2 3 4 by simp
qed

lemma update_values: "t \<in> snd ` set (AList.update k v al) \<Longrightarrow> t = v \<or> t \<in> snd ` set al"
  by (induction al) (auto split: if_splits)

lemma remove1_other_key:
  "distinct (map fst xs) \<Longrightarrow> c \<in> set xs \<Longrightarrow> c' \<in> set (remove1 c xs) \<Longrightarrow> fst c' \<noteq> fst c"
  by (induction xs) (auto split: if_splits simp: rev_image_eqI)

lemma distinct_keys_remove1: "distinct (map fst xs) \<Longrightarrow> distinct (map fst (remove1 c xs))"
  by (induction xs) (auto dest: notin_set_remove1 simp: image_iff)

lemma well_formed_drop:
  assumes "well_formed st" "active_tasks st' = active_tasks st"
    "scheduled st' = remove1 call (scheduled st)"
  shows "well_formed st'"
  using assms unfolding well_formed_def
  by (auto simp: distinct_keys_remove1 dest: notin_set_remove1)

lemma well_formed_finish:
  assumes wf: "well_formed st" and c: "call \<in> set (scheduled st)" and v: "task_shape v"
    and a: "active_tasks st' = AList.update (fst call) v (active_tasks st)"
    and s: "scheduled st' = remove1 call (scheduled st)"
  shows "well_formed st'"
proof -
  let ?p = "[(''status'', JStr ''processing''), (''result'', JNull)]"
  from wf have keys: "map fst (active_tasks st)
       = map (\<lambda>n. ''query_'' @ str_nat n) [1..<Suc (length (active_tasks st))]"
    and dist: "distinct (map fst (scheduled st))"
    and sch: "\<forall>call \<in> set (scheduled st). map_of (active_tasks st) (fst call) = Some ?p"
    and shp: "\<forall>task \<in> snd ` set (active_tasks st). task_shape task"
    by (simp_all add: well_formed_def)
  from sch c have "map_of (active_tasks st) (fst call) = Some ?p" by blast
  then have present: "fst call \<in> fst ` set (active_tasks st)"
    by (metis map_of_eq_None_iff option.distinct(1))
  then have k: "map fst (active_tasks st') = map fst (active_tasks st)"
    by (simp add: a update_keys)
  then have len: "length (active_tasks st') = length (active_tasks st)"
    by (metis length_map)
  have 1: "map fst (active_tasks st')
       = map (\<lambda>n. ''query_'' @ str_nat n) [1..<Suc (length (active_tasks st'))]"
    using keys k len by simp
  have 2: "distinct (map fst (scheduled st'))"
    using dist by (simp add: s distinct_keys_remove1)
  have 3: "\<forall>c' \<in> set (scheduled st'). map_of (active_tasks st') (fst c') = Some ?p"
  proof
    fix c' assume c': "c' \<in> set (scheduled st')"
    then have "fst c' \<noteq> fst call" using remove1_other_key[OF dist c] by (simp add: s)
    moreover from c' have "c' \<in> set (scheduled st)"
      using set_remove1_subset[of call "scheduled st"] by (auto simp: s)
    ultimately show "map_of (active_tasks st') (fst c') = Some ?p"
      using sch by (simp add: a update_conv')
  qed
  have 4: "\<forall>task \<in> snd ` set (active_tasks st'). task_shape task"
    using shp v update_values[of _ "fst call" v "active_tasks st"] unfolding a by blast
  show ?thesis unfolding well_formed_def using 1 2 3 4 by blast
qed

lemma well_formed_run_agent:
  assumes "well_formed st" "call \<in> set (scheduled st)"
  shows "well_formed (snd (run_agent api_key outcome (fst call) (snd call)
            (st\<lparr>scheduled := remove1 call (scheduled st)\<rparr>)))"
proof (cases "api_key = None \<or> api_key = Some []")
  case True
  show ?thesis
    by (rule well_formed_finish[OF assms, where v = "[(''status'', JStr ''error''),
            (''result'', JStr ''Error: ANTHROPIC_API_KEY not found in .env file'')]"])
       (use True in \<open>auto simp: run_agent_def task_shape_def\<close>)
next
  case False
  show ?thesis
  proof (cases outcome)
    case (Returns r)
    show ?thesis
      by (rule well_formed_finish[OF assms, where v = "[(''status'', JStr ''completed''), (''result'', JStr r)]"])
         (use False Returns in \<open>auto simp: run_agent_def task_shape_def\<close>)
  next
    case (Raises e)
    show ?thesis
      by (rule well_formed_finish[OF assms, where v = "[(''status'', JStr ''error''), (''result'', JStr (''Error: '' @ e))]"])
         (use False Raises in \<open>auto simp: run_agent_def task_shape_def\<close>)
  next
    case (Raises_base e)
    show ?thesis
      by (rule well_formed_drop[OF assms(1), where call = call])
         (use False Raises_base in \<open>auto simp: run_agent_def\<close>)
  qed
qed

lemma find_in_set: "find P xs = Some x \<Longrightarrow> x \<in> set xs \<and> P x"
  by (induction xs) (auto split: if_splits)

lemma well_formed_reset: "well_formed st \<Longrightarrow> well_formed (snd (reset_workspace os st))"
  by (auto simp: reset_workspace_def well_formed_def split: os_result.splits)

lemma well_formed_step: "well_formed st \<Longrightarrow> well_formed (step e st)"
proof (cases e)
  case (Run_background q k out)
  assume wf: "well_formed st"
  show ?thesis
  proof (cases "find (\<lambda>call. fst call = q) (scheduled st)")
    case None
    with wf Run_background show ?thesis by simp
  next
    case (Some call)
    then have "call \<in> set (scheduled st)" by (simp add: find_in_set)
    from well_formed_run_agent[OF wf this] Some Run_background show ?thesis by simp
  qed
qed (auto simp: well_formed_create_query well_formed_reset, simp add: well_formed_def)

lemma well_formed_exec: "well_formed st \<Longrightarrow> well_formed (exec es st)"
  by (induction es arbitrary: st) (auto simp: well_formed_step)

lemma reachable_well_formed: "well_formed (exec es (initial_state dir entries))"
  by (simp add: well_formed_exec well_formed_initial)

lemma run_background_cases:
  "active_tasks (step (Run_background q k out) st) = active_tasks st \<or>
   (\<exists>call v. call \<in> set (scheduled st) \<and> fst call = q \<and> terminal v \<and>
      active_tasks (step (Run_background q k out) st) = AList.update q v (active_tasks st))"
proof (cases "find (\<lambda>call. fst call = q) (scheduled st)")
  case None
  then show ?thesis by simp
next
  case (Some call)
  then have c: "call \<in> set (scheduled st)" "fst call = q"
    using find_in_set[of "\<lambda>call. fst call = q" "scheduled st" call] by simp_all
  show ?thesis
  proof (cases "k = None \<or> k = Some []")
    case True
    have "terminal [(''status'', JStr ''error''),
            (''result'', JStr ''Error: ANTHROPIC_API_KEY not found in .env file'')]"
      by (simp add: terminal_def)
    moreover have "active_tasks (step (Run_background q k out) st) = AList.update q
        [(''status'', JStr ''error''),
         (''result'', JStr ''Error: ANTHROPIC_API_KEY not found in .env file'')] (active_tasks st)"
      using c Some True by (auto simp: run_agent_def)
    ultimately show ?thesis using c by blast
  next
    case False
    show ?thesis
    proof (cases out)
      case (Returns r)
      have "terminal [(''status'', JStr ''completed''), (''result'', JStr r)]"
        by (simp add: terminal_def)
      moreover have "active_tasks (step (Run_background q k out) st) = AList.update q
          [(''status'', JStr ''completed''), (''result'', JStr r)] (active_tasks st)"
        using c Some False Returns by (auto simp: run_agent_def)
      ultimately show ?thesis using c by blast
    next
      case (Raises e)
      have "terminal [(''status'', JStr ''error''), (''result'', JStr (''Error: '' @ e))]"
        by (simp add: terminal_def)
      moreover have "active_tasks (step (Run_background q k out) st) = AList.update q
          [(''status'', JStr ''error''), (''result'', JStr (''Error: '' @ e))] (active_tasks st)"
        using c Some False Raises by (auto simp: run_agent_def)
      ultimately show ?thesis using c by blast
    next
      case (Raises_base e)
      have "active_tasks (step (Run_background q k out) st) = active_tasks st"
        using Some False Raises_base by (auto simp: run_agent_def)
      then show ?thesis by blast
    qed
  qed
qed

lemma step_record:
  assumes wf: "well_formed st" and q: "map_of (active_tasks st) q = Some task"
  shows "map_of (active_tasks (step e st)) q = Some task \<or>
         (\<exists>k out task'. e = Run_background q k out \<and>
            task = [(''status'', JStr ''processing''), (''result'', JNull)] \<and>
            map_of (active_tasks (step e st)) q = Some task' \<and> terminal task')"
proof (cases e)
  case (Submit qt)
  from q have "q \<in> fst ` set (active_tasks st)"
    by (metis map_of_eq_None_iff option.distinct(1))
  with create_query_fresh(1)[OF wf]
  have "q \<noteq> ''query_'' @ str_nat (length (active_tasks st) + 1)" by blast
  with q Submit show ?thesis
    by (simp add: create_query_state[OF wf] map_add_Some_iff)
next
  case (Run_background q' k out)
  from run_background_cases[of q' k out st] show ?thesis
  proof (elim disjE exE conjE)
    assume "active_tasks (step (Run_background q' k out) st) = active_tasks st"
    with q Run_background show ?thesis by simp
  next
    fix call v
    assume c: "call \<in> set (scheduled st)" "fst call = q'" and v: "terminal v"
      and a: "active_tasks (step (Run_background q' k out) st) = AList.update q' v (active_tasks st)"
    show ?thesis
    proof (cases "q' = q")
      case True
      from wf c have "map_of (active_tasks st) q' = Some [(''status'', JStr ''processing''), (''result'', JNull)]"
        by (auto simp: well_formed_def)
      with q True have "task = [(''status'', JStr ''processing''), (''result'', JNull)]" by simp
      with True v a Run_background show ?thesis by (simp add: update_conv')
    next
      case False
      with q a Run_background show ?thesis by (simp add: update_conv')
    qed
  qed
next
  case (Reset_workspace os)
  with q show ?thesis by (auto simp: reset_workspace_def split: os_result.splits)
qed (use q in auto)

lemma exec_record_untouched:
  assumes "well_formed st" "map_of (active_tasks st) q = Some task"
    "\<forall>k out. Run_background q k out \<notin> set later"
  shows "map_of (active_tasks (exec later st)) q = Some task"
  using assms
proof (induction later arbitrary: st)
  case Nil
  then show ?case by simp
next
  case (Cons e later)
  from step_record[OF Cons.prems(1,2), of e] Cons.prems(3)
  have "map_of (active_tasks (step e st)) q = Some task" by auto
  with Cons.IH[OF well_formed_step[OF Cons.prems(1)]] Cons.prems(3) show ?case by simp
qed

lemma processing_not_terminal:
  "\<not> terminal [(''status'', JStr ''processing''), (''result'', JNull)]"
  by (simp add: terminal_def)

lemma exec_record_terminal:
  assumes "well_formed st" "map_of (active_tasks st) q = Some task" "terminal task"
  shows "map_of (active_tasks (exec later st)) q = Some task"
  using assms
proof (induction later arbitrary: st)
  case Nil
  then show ?case by simp
next
  case (Cons e later)
  from step_record[OF Cons.prems(1,2), of e] Cons.prems(3) processing_not_terminal
  have "map_of (active_tasks (step e st)) q = Some task" by auto
  with Cons.IH[OF well_formed_step[OF Cons.prems(1)]] Cons.prems(3) show ?case by simp
qed

lemma step_keys:
  assumes wf: "well_formed st"
  shows "map fst (active_tasks (step e st)) = map fst (active_tasks st) @
     (case e of Submit text \<Rightarrow> [''query_'' @ str_nat (length (active_tasks st) + 1)] | _ \<Rightarrow> [])"
proof (cases e)
  case (Submit qt)
  then show ?thesis by (simp add: create_query_state[OF wf])
next
  case (Run_background q' k out)
  from run_background_cases[of q' k out st] show ?thesis
  proof (elim disjE exE conjE)
    assume "active_tasks (step (Run_background q' k out) st) = active_tasks st"
    with Run_background show ?thesis by simp
  next
    fix call v
    assume c: "call \<in> set (scheduled st)" "fst call = q'" 
      and a: "active_tasks (step (Run_background q' k out) st) = AList.update q' v (active_tasks st)"
    from wf c have "map_of (active_tasks st) q' \<noteq> None" by (auto simp: well_formed_def)
    then have "q' \<in> fst ` set (active_tasks st)" by (simp add: map_of_eq_None_iff)
    with a Run_background show ?thesis by (simp add: update_keys)
  qed
next
  case (Reset_workspace os)
  then show ?thesis by (auto simp: reset_workspace_def split: os_result.splits)
qed auto

lemma issued_keys:
  "well_formed st \<Longrightarrow>
   map fst (active_tasks (exec es st)) = map fst (active_tasks st) @ issued es st"
proof (induction es arbitrary: st)
  case Nil
  then show ?case by simp
next
  case (Cons e es)
  note ih = Cons.IH[OF well_formed_step[OF Cons.prems], of e]
  show ?case
  proof (cases e)
    case (Submit qt)
    have "map_of (fst (create_query qt st)) ''query_id''
            = Some (JStr (''query_'' @ str_nat (length (active_tasks st) + 1)))"
      by (simp add: create_query_def Let_def)
    with ih Submit step_keys[OF Cons.prems, of e] show ?thesis by simp
  qed (use ih step_keys[OF Cons.prems, of e] in auto)
qed

lemma issued_initial:
  "issued es (initial_state dir entries)
     = map fst (active_tasks (exec es (initial_state dir entries)))"
  using issued_keys[OF well_formed_initial, of es dir entries]
  by (simp add: initial_state_def)

lemma get_result_lookup:
  "map_of (active_tasks st) q = Some task \<Longrightarrow> get_result q st = task"
  by (simp add: get_result_def)

lemma find_scheduled:
  "(q, t) \<in> set xs \<Longrightarrow> \<exists>call. find (\<lambda>c. fst c = q) xs = Some call \<and> fst call = q"
  by (induction xs) auto

lemma get_result_unissued:
  assumes "query_id \<notin> set (issued evs (initial_state dir entries))"
  shows "get_result query_id (exec evs (initial_state dir entries)) = [(''status'', JStr ''not_found'')]"
proof -
  from assms have "query_id \<notin> fst ` set (active_tasks (exec evs (initial_state dir entries)))"
    by (simp add: issued_initial)
  then have "map_of (active_tasks (exec evs (initial_state dir entries))) query_id = None"
    by (simp add: map_of_eq_None_iff)
  then show ?thesis by (simp add: get_result_def)
qed

lemma get_result_update:
  "active_tasks st' = AList.update q v (active_tasks st) \<Longrightarrow>
   get_result q' st' = (if q' = q then v else get_result q' st)"
  by (simp add: get_result_def update_conv')

lemma get_directory_tree_entries:
  "get_directory_tree path rel_path = map (tree_entry path rel_path) (sort (map fst path))"
  by (subst get_directory_tree.simps)
     (auto simp: tree_entry_def child_path_def Let_def split: option.splits fs_node.splits)

lemma entry_name_tree_entry: "entry_name (tree_entry path rel_path item) = item"
  by (simp add: tree_entry_def entry_name_def split: option.splits fs_node.splits)

lemma tree_names: "map entry_name (get_directory_tree path rel_path) = sort (map fst path)"
  by (simp add: get_directory_tree_entries entry_name_tree_entry cong: map_cong)

lemma tree_ok_get_directory_tree: "tree_ok rel_path (get_directory_tree path rel_path)"
proof (induction path rel_path rule: get_directory_tree.induct)
  case (1 path rel_path)
  have sub: "tree_ok (child_path rel_path item) (get_directory_tree sub (child_path rel_path item))"
    if "item \<in> set (sort (map fst path))" "map_of path item = Some (Dir sub)" for item sub
    using 1[OF that(1) refl that(2) refl] by (cases "rel_path = []") (simp_all add: child_path_def)
  have "sorted (map entry_name (get_directory_tree path rel_path))"
    by (simp add: tree_names)
  moreover have "entry_field ''name'' e = Some (JStr (entry_name e)) \<and>
        entry_field ''path'' e = Some (JStr (child_path rel_path (entry_name e))) \<and>
        (case entry_field ''children'' e of
           None \<Rightarrow> entry_field ''type'' e = Some (JStr ''file'')
         | Some (JArr sub) \<Rightarrow>
             entry_field ''type'' e = Some (JStr ''directory'') \<and>
             tree_ok (child_path rel_path (entry_name e)) sub
         | Some _ \<Rightarrow> False)"
    if "e \<in> set (get_directory_tree path rel_path)" for e
  proof -
    from that obtain item where item: "item \<in> set (sort (map fst path))"
      and e: "e = tree_entry path rel_path item"
      by (auto simp: get_directory_tree_entries)
    show ?thesis
    proof (cases "\<exists>sub. map_of path item = Some (Dir sub)")
      case True
      then obtain sub where d: "map_of path item = Some (Dir sub)" by blast
      from sub[OF item d] show ?thesis
        by (simp add: e tree_entry_def entry_name_def d)
    next
      case False
      then show ?thesis
        by (auto simp: e tree_entry_def entry_name_def split: option.splits fs_node.splits)
    qed
  qed
  ultimately show ?case by (subst tree_ok.simps) blast
qed

lemma same_listing_tree:
  "same_listing p p' \<Longrightarrow> get_directory_tree p rel_path = get_directory_tree p' rel_path"
proof (induction p p' arbitrary: rel_path rule: same_listing.induct)
  case (1 p p')
  from "1.prems" have d: "distinct (map fst p)" "distinct (map fst p')"
    and k: "set (map fst p) = set (map fst p')"
    and c: "\<forall>item \<in> set (map fst p).
        case map_of p item of
          Some (Dir sub) \<Rightarrow>
            (case map_of p' item of Some (Dir sub') \<Rightarrow> same_listing sub sub' | _ \<Rightarrow> False)
        | _ \<Rightarrow> map_of p' item = map_of p item"
    by (subst (asm) same_listing.simps, blast)+
  have items: "sort (map fst p) = sort (map fst p')"
    using d k by (intro sorted_distinct_set_unique) simp_all
  have "tree_entry p rel_path item = tree_entry p' rel_path item"
    if "item \<in> set (map fst p)" for item
  proof (cases "map_of p item")
    case None
    with c that have "map_of p' item = None" by fastforce
    with None show ?thesis by (simp add: tree_entry_def)
  next
    case (Some node)
    show ?thesis
    proof (cases node)
      case File
      with c that Some have "map_of p' item = Some File" by fastforce
      with Some File show ?thesis by (simp add: tree_entry_def)
    next
      case (Dir sub)
      with c that Some obtain sub' where s': "map_of p' item = Some (Dir sub')"
        and same: "same_listing sub sub'"
        by (fastforce split: option.splits fs_node.splits)
      from "1.IH"[OF that Some Dir s' refl same]
      have "get_directory_tree sub (child_path rel_path item)
          = get_directory_tree sub' (child_path rel_path item)" .
      with Some Dir s' show ?thesis by (simp add: tree_entry_def)
    qed
  qed
  then have "map (tree_entry p rel_path) (sort (map fst p))
           = map (tree_entry p' rel_path) (sort (map fst p))"
    by (intro map_cong refl) simp
  with items show ?case
    by (simp only: get_directory_tree_entries)
qed

lemma tree_contains_directory:
  "map_of path item = Some (Dir sub) \<Longrightarrow>
   JObj [(''name'', JStr item), (''path'', JStr (child_path rel_path item)),
         (''type'', JStr ''directory''),
         (''children'', JArr (get_directory_tree sub (child_path rel_path item)))]
     \<in> set (get_directory_tree path rel_path)"
proof -
  assume m: "map_of path item = Some (Dir sub)"
  then have "item \<in> set (sort (map fst path))"
    by (auto dest!: map_of_SomeD simp: rev_image_eqI)
  then have "tree_entry path rel_path item \<in> set (get_directory_tree path rel_path)"
    by (simp add: get_directory_tree_entries)
  with m show ?thesis by (simp add: tree_entry_def)
qed

lemma tree_contains_file:
  "map_of path item = Some File \<Longrightarrow>
   JObj [(''name'', JStr item), (''path'', JStr (child_path rel_path item)),
         (''type'', JStr ''file'')]
     \<in> set (get_directory_tree path rel_path)"
proof -
  assume m: "map_of path item = Some File"
  then have "item \<in> set (sort (map fst path))"
    by (auto dest!: map_of_SomeD simp: rev_image_eqI)
  then have "tree_entry path rel_path item \<in> set (get_directory_tree path rel_path)"
    by (simp add: get_directory_tree_entries)
  with m show ?thesis by (simp add: tree_entry_def)
qed

section \<open>The claims\<close>

text \<open>
  C1. In every state that events reach from the initial one, \<^verbatim>\<open>create_query\<close> answers
  with an identifier and the status \<^verbatim>\<open>processing\<close>, has scheduled the background call for
  that identifier, and has stored the record \<^verbatim>\<open>{status: processing, result: None}\<close> under
  it. In every later state each call that is still scheduled finds its record in the
  registry, still \<^verbatim>\<open>processing\<close>; and as long as the background call of the submission
  has not run, a poll of its identifier returns the \<^verbatim>\<open>processing\<close> record, not
  \<^verbatim>\<open>not_found\<close>.
\<close>

theorem submit_registers_before_background:
  assumes "create_query query_text (exec evs (initial_state dir entries)) = (response, st')"
  shows "\<exists>query_id.
     response = [(''query_id'', JStr query_id), (''status'', JStr ''processing'')] \<and>
     (query_id, query_text) \<in> set (scheduled st') \<and>
     get_result query_id st' = [(''status'', JStr ''processing''), (''result'', JNull)] \<and>
     (\<forall>call \<in> set (scheduled (exec later st')).
        get_result (fst call) (exec later st')
          = [(''status'', JStr ''processing''), (''result'', JNull)]) \<and>
     ((\<forall>api_key outcome. Run_background query_id api_key outcome \<notin> set later) \<longrightarrow>
        get_result query_id (exec later st')
          = [(''status'', JStr ''processing''), (''result'', JNull)])"
proof -
  let ?st = "exec evs (initial_state dir entries)"
  let ?q = "''query_'' @ str_nat (length (active_tasks ?st) + 1)"
  let ?p = "[(''status'', JStr ''processing''), (''result'', JNull)]"
  have wf: "well_formed ?st" by (rule reachable_well_formed)
  from assms have st': "st' = snd (create_query query_text ?st)" by simp
  have wf': "well_formed st'" unfolding st' by (rule well_formed_create_query[OF wf])
  have wfl: "well_formed (exec later st')" by (rule well_formed_exec[OF wf'])
  have r: "response = [(''query_id'', JStr ?q), (''status'', JStr ''processing'')]"
    using assms by (auto simp: create_query_def Let_def)
  have s: "(?q, query_text) \<in> set (scheduled st')"
    unfolding st' by (simp add: create_query_def Let_def)
  with wf' have m: "map_of (active_tasks st') ?q = Some ?p"
    unfolding well_formed_def by fastforce
  have a: "\<forall>call \<in> set (scheduled (exec later st')). get_result (fst call) (exec later st') = ?p"
    using wfl unfolding well_formed_def by (auto simp: get_result_lookup)
  have b: "(\<forall>api_key outcome. Run_background ?q api_key outcome \<notin> set later) \<longrightarrow>
        get_result ?q (exec later st') = ?p"
    using exec_record_untouched[OF wf' m] by (auto simp: get_result_lookup)
  from r s m a b show ?thesis by (intro exI[of _ ?q]) (simp add: get_result_lookup)
qed

theorem submit_registers_before_background_witness:
  "fst (create_query ''list files'' (exec [Submit ''a''] (initial_state ''/srv/agent_workspace'' [])))
     = [(''query_id'', JStr ''query_2''), (''status'', JStr ''processing'')] \<and>
   get_result ''query_2''
     (exec [Poll ''query_2'', Submit ''b'', Run_background ''query_1'' (Some ''key'') (Returns ''ok'')]
        (snd (create_query ''list files'' (exec [Submit ''a''] (initial_state ''/srv/agent_workspace'' [])))))
     = [(''status'', JStr ''processing''), (''result'', JNull)]"
  using submit_registers_before_background
    [where query_text = "''list files''" and evs = "[Submit ''a'']"
       and dir = "''/srv/agent_workspace''" and entries = "[]"
       and later = "[Poll ''query_2'', Submit ''b'',
                     Run_background ''query_1'' (Some ''key'') (Returns ''ok'')]",
     OF surjective_pairing]
  by (simp add: create_query_def Let_def initial_state_def str_nat.simps digit_char_def)

text \<open>
  C2. After any run of events, polling an identifier that no submission of the run
  returned yields exactly \<^verbatim>\<open>{status: not_found}\<close>. The handler is a total function of
  the registry: it has no branch that raises.
\<close>

theorem poll_never_issued_not_found:
  assumes "query_id \<notin> set (issued evs (initial_state dir entries))"
  shows "get_result query_id (exec evs (initial_state dir entries)) = [(''status'', JStr ''not_found'')]"
  using assms by (rule get_result_unissued)

theorem poll_never_issued_not_found_witness:
  "''query_999'' \<notin> set (issued [Submit ''a''] (initial_state ''/srv/agent_workspace'' [])) \<and>
   get_result ''query_999'' (exec [Submit ''a''] (initial_state ''/srv/agent_workspace'' []))
     = [(''status'', JStr ''not_found'')]"
proof -
  have h: "''query_999'' \<notin> set (issued [Submit ''a''] (initial_state ''/srv/agent_workspace'' []))"
    by (simp add: create_query_def Let_def initial_state_def str_nat.simps digit_char_def)
  from h poll_never_issued_not_found[OF h] show ?thesis by simp
qed

text \<open>
  C3. For a record of a reachable state, one more event leaves the record as it is or
  takes it from \<^verbatim>\<open>processing\<close> to \<^verbatim>\<open>completed\<close> or \<^verbatim>\<open>error\<close>; and once its status is
  \<^verbatim>\<open>completed\<close> or \<^verbatim>\<open>error\<close>, every poll after any further events returns that same
  record.
\<close>

theorem terminal_record_is_final:
  assumes "map_of (active_tasks (exec evs (initial_state dir entries))) query_id = Some task"
  shows "(\<exists>task'. map_of (active_tasks (step e (exec evs (initial_state dir entries)))) query_id
                     = Some task' \<and>
            (task' = task \<or>
             map_of task ''status'' = Some (JStr ''processing'') \<and>
             (map_of task' ''status'' = Some (JStr ''completed'') \<or>
              map_of task' ''status'' = Some (JStr ''error'')))) \<and>
         (map_of task ''status'' = Some (JStr ''completed'') \<or>
          map_of task ''status'' = Some (JStr ''error'') \<longrightarrow>
            get_result query_id (exec later (exec evs (initial_state dir entries))) = task)"
proof -
  let ?st = "exec evs (initial_state dir entries)"
  have wf: "well_formed ?st" by (rule reachable_well_formed)
  have 1: "\<exists>task'. map_of (active_tasks (step e ?st)) query_id = Some task' \<and>
            (task' = task \<or>
             map_of task ''status'' = Some (JStr ''processing'') \<and>
             (map_of task' ''status'' = Some (JStr ''completed'') \<or>
              map_of task' ''status'' = Some (JStr ''error'')))"
    using step_record[OF wf assms, of e] by (auto simp: terminal_def)
  have 2: "get_result query_id (exec later ?st) = task" if "terminal task"
    using exec_record_terminal[OF wf assms that] by (simp add: get_result_lookup)
  from 1 2 show ?thesis unfolding terminal_def by blast
qed

theorem terminal_record_is_final_witness:
  "map_of (active_tasks (exec [Submit ''a'', Run_background ''query_1'' (Some ''key'') (Returns ''done'')]
                           (initial_state ''/srv/agent_workspace'' []))) ''query_1''
     = Some [(''status'', JStr ''completed''), (''result'', JStr ''done'')] \<and>
   get_result ''query_1''
     (exec [Submit ''b'', Run_background ''query_1'' None (Raises ''late''), Poll ''query_1'']
        (exec [Submit ''a'', Run_background ''query_1'' (Some ''key'') (Returns ''done'')]
           (initial_state ''/srv/agent_workspace'' [])))
     = [(''status'', JStr ''completed''), (''result'', JStr ''done'')]"
proof -
  have h: "map_of (active_tasks (exec [Submit ''a'', Run_background ''query_1'' (Some ''key'') (Returns ''done'')]
                           (initial_state ''/srv/agent_workspace'' []))) ''query_1''
     = Some [(''status'', JStr ''completed''), (''result'', JStr ''done'')]"
    by (simp add: create_query_def Let_def run_agent_def initial_state_def str_nat.simps digit_char_def)
  from h terminal_record_is_final[OF h, where
      later = "[Submit ''b'', Run_background ''query_1'' None (Raises ''late''), Poll ''query_1'']"]
  show ?thesis by simp
qed

text \<open>
  C4, as stated, fails: the stored result is not the exception's message but the
  message after the prefix \<^verbatim>\<open>Error: \<close>, and an exception that is not derived from
  \<^verbatim>\<open>Exception\<close> passes \<^verbatim>\<open>except Exception\<close>, leaving the record \<^verbatim>\<open>processing\<close>.
\<close>

theorem agent_exception_result_counterexample:
  "map_of (get_result ''query_1''
      (exec [Submit ''deploy'', Run_background ''query_1'' (Some ''key'') (Raises ''boom'')]
         (initial_state ''/srv/agent_workspace'' []))) ''result'' \<noteq> Some (JStr ''boom'') \<and>
   get_result ''query_1''
      (exec [Submit ''deploy'', Run_background ''query_1'' (Some ''key'') (Raises_base ''exit'')]
         (initial_state ''/srv/agent_workspace'' []))
     = [(''status'', JStr ''processing''), (''result'', JNull)]"
  by (simp add: create_query_def Let_def get_result_def run_agent_def initial_state_def
      str_nat.simps digit_char_def)

text \<open>
  C4, amended. When the credential is present and the agent invocation of a scheduled
  call raises an exception derived from \<^verbatim>\<open>Exception\<close> with message \<open>e\<close>, the record of
  that identifier becomes \<^verbatim>\<open>{status: error, result: "Error: " + e}\<close>, every other
  identifier polls as before, and no exception leaves \<^verbatim>\<open>run_agent\<close>.
\<close>

theorem agent_exception_becomes_error_record:
  assumes "api_key = Some key" and "key \<noteq> []"
    and "(query_id, query_text) \<in> set (scheduled st)"
  shows "get_result query_id (step (Run_background query_id api_key (Raises e)) st)
           = [(''status'', JStr ''error''), (''result'', JStr (''Error: '' @ e))] \<and>
         (\<forall>q. q \<noteq> query_id \<longrightarrow>
            get_result q (step (Run_background query_id api_key (Raises e)) st) = get_result q st) \<and>
         fst (run_agent api_key (Raises e) query_id query_text st) = None"
proof -
  let ?v = "[(''status'', JStr ''error''), (''result'', JStr (''Error: '' @ e))]"
  let ?st' = "step (Run_background query_id api_key (Raises e)) st"
  from find_scheduled[OF assms(3)] obtain call
    where c: "find (\<lambda>c. fst c = query_id) (scheduled st) = Some call" "fst call = query_id"
    by blast
  have a: "active_tasks ?st' = AList.update query_id ?v (active_tasks st)"
    using assms(1,2) c by (auto simp: run_agent_def)
  have n: "fst (run_agent api_key (Raises e) query_id query_text st) = None"
    using assms(1,2) by (auto simp: run_agent_def)
  show ?thesis using get_result_update[OF a] n by simp
qed

theorem agent_exception_becomes_error_record_witness:
  "get_result ''query_1''
     (exec [Submit ''deploy'', Run_background ''query_1'' (Some ''key'') (Raises ''boom'')]
        (initial_state ''/srv/agent_workspace'' []))
     = [(''status'', JStr ''error''), (''result'', JStr ''Error: boom'')]"
  using agent_exception_becomes_error_record[where api_key = "Some ''key''" and key = "''key''"
      and query_id = "''query_1''" and query_text = "''deploy''" and e = "''boom''"
      and st = "exec [Submit ''deploy''] (initial_state ''/srv/agent_workspace'' [])"]
  by (simp add: create_query_def Let_def initial_state_def str_nat.simps digit_char_def)

text \<open>
  C5. In a reachable state \<^verbatim>\<open>create_query\<close> returns \<^verbatim>\<open>query_<n>\<close> with \<open>n\<close> one more than
  the size of the registry; no earlier submission of the run returned it, the identifiers
  of all submissions including this one are pairwise different, and on the initial
  (empty) registry the identifier is \<^verbatim>\<open>query_1\<close>.
\<close>

theorem submit_identifier_fresh:
  assumes "st = exec evs (initial_state dir entries)"
  shows "fst (create_query query_text st)
           = [(''query_id'', JStr (''query_'' @ str_nat (length (active_tasks st) + 1))),
              (''status'', JStr ''processing'')] \<and>
         ''query_'' @ str_nat (length (active_tasks st) + 1) \<notin> set (issued evs (initial_state dir entries)) \<and>
         distinct (issued (evs @ [Submit query_text]) (initial_state dir entries)) \<and>
         fst (create_query query_text (initial_state dir entries))
           = [(''query_id'', JStr ''query_1''), (''status'', JStr ''processing'')]"
proof -
  have wf: "well_formed st" unfolding assms by (rule reachable_well_formed)
  have 1: "fst (create_query query_text st)
           = [(''query_id'', JStr (''query_'' @ str_nat (length (active_tasks st) + 1))),
              (''status'', JStr ''processing'')]"
    by (simp add: create_query_def Let_def)
  have 2: "''query_'' @ str_nat (length (active_tasks st) + 1) \<notin> set (issued evs (initial_state dir entries))"
    using create_query_fresh(1)[OF wf] by (simp add: issued_initial assms)
  have "well_formed (exec (evs @ [Submit query_text]) (initial_state dir entries))"
    by (rule reachable_well_formed)
  then have "distinct (map fst (active_tasks (exec (evs @ [Submit query_text]) (initial_state dir entries))))"
    unfolding well_formed_def
    by (metis (no_types, lifting) distinct_map distinct_upt inj_onI str_nat_inj same_append_eq)
  then have 3: "distinct (issued (evs @ [Submit query_text]) (initial_state dir entries))"
    by (simp only: issued_initial)
  have 4: "fst (create_query query_text (initial_state dir entries))
           = [(''query_id'', JStr ''query_1''), (''status'', JStr ''processing'')]"
    by (simp add: create_query_def Let_def initial_state_def str_nat.simps digit_char_def)
  from 1 2 3 4 show ?thesis by blast
qed

theorem submit_identifier_fresh_witness:
  "fst (create_query ''c'' (exec [Submit ''a'', Submit ''b''] (initial_state ''/srv/agent_workspace'' [])))
     = [(''query_id'', JStr ''query_3''), (''status'', JStr ''processing'')] \<and>
   ''query_3'' \<notin> set (issued [Submit ''a'', Submit ''b''] (initial_state ''/srv/agent_workspace'' []))"
  using submit_identifier_fresh[OF refl, where query_text = "''c''"
      and evs = "[Submit ''a'', Submit ''b'']" and dir = "''/srv/agent_workspace''" and entries = "[]"]
  by (simp add: create_query_def Let_def initial_state_def str_nat.simps digit_char_def)

text \<open>
  C6. When \<^verbatim>\<open>ANTHROPIC_API_KEY\<close> is unset or empty at the time a scheduled call runs,
  the record of its identifier becomes \<^verbatim>\<open>error\<close> with the result
  \<^verbatim>\<open>Error: ANTHROPIC_API_KEY not found in .env file\<close>, which contains \<^verbatim>\<open>not found\<close>;
  the agent is not invoked, whatever it would have done; every other identifier polls
  as before; and no exception leaves \<^verbatim>\<open>run_agent\<close>.
\<close>

theorem missing_credential_error:
  assumes "api_key = None \<or> api_key = Some []"
    and "(query_id, query_text) \<in> set (scheduled st)"
  shows "get_result query_id (step (Run_background query_id api_key outcome) st)
           = [(''status'', JStr ''error''),
              (''result'', JStr ''Error: ANTHROPIC_API_KEY not found in .env file'')] \<and>
         sublist ''not found'' ''Error: ANTHROPIC_API_KEY not found in .env file'' \<and>
         agent_calls (step (Run_background query_id api_key outcome) st) = agent_calls st \<and>
         (\<forall>q. q \<noteq> query_id \<longrightarrow>
            get_result q (step (Run_background query_id api_key outcome) st) = get_result q st) \<and>
         fst (run_agent api_key outcome query_id query_text st) = None"
proof -
  let ?v = "[(''status'', JStr ''error''),
             (''result'', JStr ''Error: ANTHROPIC_API_KEY not found in .env file'')]"
  let ?st' = "step (Run_background query_id api_key outcome) st"
  from find_scheduled[OF assms(2)] obtain call
    where c: "find (\<lambda>c. fst c = query_id) (scheduled st) = Some call" "fst call = query_id"
    by blast
  have a: "active_tasks ?st' = AList.update query_id ?v (active_tasks st)"
    using assms(1) c by (auto simp: run_agent_def)
  have l: "agent_calls ?st' = agent_calls st"
    using assms(1) c by (auto simp: run_agent_def)
  have s: "sublist ''not found'' ''Error: ANTHROPIC_API_KEY not found in .env file''"
    unfolding sublist_def
    by (intro exI[of _ "''Error: ANTHROPIC_API_KEY ''"] exI[of _ "'' in .env file''"]) simp
  have n: "fst (run_agent api_key outcome query_id query_text st) = None"
    using assms(1) by (auto simp: run_agent_def)
  show ?thesis using get_result_update[OF a] l s n by simp
qed

theorem missing_credential_error_witness:
  "get_result ''query_1''
     (exec [Submit ''deploy'', Run_background ''query_1'' None (Returns ''unused'')]
        (initial_state ''/srv/agent_workspace'' []))
     = [(''status'', JStr ''error''),
        (''result'', JStr ''Error: ANTHROPIC_API_KEY not found in .env file'')] \<and>
   agent_calls (exec [Submit ''deploy'', Run_background ''query_1'' None (Returns ''unused'')]
        (initial_state ''/srv/agent_workspace'' [])) = []"
  using missing_credential_error[where api_key = None and query_id = "''query_1''"
      and query_text = "''deploy''" and outcome = "Returns ''unused''"
      and st = "exec [Submit ''deploy''] (initial_state ''/srv/agent_workspace'' [])"]
  by (simp add: create_query_def Let_def initial_state_def str_nat.simps digit_char_def)

text \<open>
  C7. Whatever the workspace path named before and whatever the operating system does:
  \<^item> a \<^verbatim>\<open>success\<close> answer of \<^verbatim>\<open>reset_workspace\<close> implies that the workspace is an empty
    directory afterwards, and no symbolic link;
  \<^item> when the path named nothing or a directory, with or without entries, and no call
    is refused by the operating system, the answer is \<^verbatim>\<open>success\<close>;
  \<^item> when \<^verbatim>\<open>rmtree\<close> is called and raises, or \<^verbatim>\<open>makedirs\<close> raises, with \<^verbatim>\<open>str(e) = e\<close>,
    the answer is \<^verbatim>\<open>error\<close> with the message \<^verbatim>\<open>Error resetting workspace: \<close> followed by
    \<open>e\<close>, and the workspace is what the failing call left;
  \<^item> in particular a workspace path that is a symbolic link to something gets the
    \<^verbatim>\<open>error\<close> answer and stays as it was;
  \<^item> every answer is \<^verbatim>\<open>success\<close> or \<^verbatim>\<open>error\<close> with a message.

  The handler is a total function: each failure of its two calls is a branch that
  returns.
\<close>

theorem reset_workspace_outcome:
  "(map_of (fst (reset_workspace os st)) ''status'' = Some (JStr ''success'') \<longrightarrow>
      workspace (snd (reset_workspace os st)) = Some (Dir []) \<and>
      \<not> workspace_is_link (snd (reset_workspace os st))) \<and>
   (rmtree_fault os = None \<and> makedirs_fault os = None \<and> \<not> workspace_is_link st \<and>
    workspace st \<noteq> Some File \<longrightarrow>
      fst (reset_workspace os st)
        = [(''status'', JStr ''success''),
           (''message'', JStr (''Workspace at '' @ workspace_dir st @ '' has been reset''))]) \<and>
   (workspace st \<noteq> None \<and>
    rmtree os (workspace_is_link st) (workspace st) = Failed e left \<longrightarrow>
      reset_workspace os st
        = ([(''status'', JStr ''error''),
            (''message'', JStr (''Error resetting workspace: '' @ e))],
           st\<lparr>workspace := left\<rparr>)) \<and>
   (workspace st \<noteq> None \<and>
    rmtree os (workspace_is_link st) (workspace st) = Done after_rmtree \<and>
    makedirs_exist_ok os (workspace_is_link st) after_rmtree = Failed e left \<longrightarrow>
      reset_workspace os st
        = ([(''status'', JStr ''error''),
            (''message'', JStr (''Error resetting workspace: '' @ e))],
           st\<lparr>workspace := left\<rparr>)) \<and>
   (workspace st = None \<and>
    makedirs_exist_ok os (workspace_is_link st) None = Failed e left \<longrightarrow>
      reset_workspace os st
        = ([(''status'', JStr ''error''),
            (''message'', JStr (''Error resetting workspace: '' @ e))],
           st\<lparr>workspace := left\<rparr>)) \<and>
   (workspace_is_link st \<and> workspace st \<noteq> None \<longrightarrow>
      reset_workspace os st
        = ([(''status'', JStr ''error''),
            (''message'', JStr (''Error resetting workspace: '' @ error_text os Rmtree_of_link))],
           st)) \<and>
   (map_of (fst (reset_workspace os st)) ''status'' = Some (JStr ''success'') \<or>
    (\<exists>e. fst (reset_workspace os st)
        = [(''status'', JStr ''error''),
           (''message'', JStr (''Error resetting workspace: '' @ e))]))"
proof -
  have 1: "map_of (fst (reset_workspace os st)) ''status'' = Some (JStr ''success'') \<longrightarrow>
      workspace (snd (reset_workspace os st)) = Some (Dir []) \<and>
      \<not> workspace_is_link (snd (reset_workspace os st))"
    by (auto simp: reset_workspace_def rmtree_def makedirs_exist_ok_def
        split: os_result.splits option.splits fs_node.splits prod.splits if_splits)
  have 2: "rmtree_fault os = None \<and> makedirs_fault os = None \<and> \<not> workspace_is_link st \<and>
    workspace st \<noteq> Some File \<longrightarrow>
      fst (reset_workspace os st)
        = [(''status'', JStr ''success''),
           (''message'', JStr (''Workspace at '' @ workspace_dir st @ '' has been reset''))]"
    by (auto simp: reset_workspace_def rmtree_def makedirs_exist_ok_def
        split: os_result.splits option.splits fs_node.splits prod.splits if_splits)
  have 3: "workspace st \<noteq> None \<and>
    rmtree os (workspace_is_link st) (workspace st) = Failed e left \<longrightarrow>
      reset_workspace os st
        = ([(''status'', JStr ''error''),
            (''message'', JStr (''Error resetting workspace: '' @ e))],
           st\<lparr>workspace := left\<rparr>)"
    by (simp add: reset_workspace_def)
  have 4: "workspace st \<noteq> None \<and>
    rmtree os (workspace_is_link st) (workspace st) = Done after_rmtree \<and>
    makedirs_exist_ok os (workspace_is_link st) after_rmtree = Failed e left \<longrightarrow>
      reset_workspace os st
        = ([(''status'', JStr ''error''),
            (''message'', JStr (''Error resetting workspace: '' @ e))],
           st\<lparr>workspace := left\<rparr>)"
    by (simp add: reset_workspace_def)
  have 5: "workspace st = None \<and>
    makedirs_exist_ok os (workspace_is_link st) None = Failed e left \<longrightarrow>
      reset_workspace os st
        = ([(''status'', JStr ''error''),
            (''message'', JStr (''Error resetting workspace: '' @ e))],
           st\<lparr>workspace := left\<rparr>)"
    by (simp add: reset_workspace_def)
  have 6: "workspace_is_link st \<and> workspace st \<noteq> None \<longrightarrow>
      reset_workspace os st
        = ([(''status'', JStr ''error''),
            (''message'', JStr (''Error resetting workspace: '' @ error_text os Rmtree_of_link))],
           st)"
    by (auto simp: reset_workspace_def rmtree_def)
  have 7: "map_of (fst (reset_workspace os st)) ''status'' = Some (JStr ''success'') \<or>
    (\<exists>e. fst (reset_workspace os st)
        = [(''status'', JStr ''error''),
           (''message'', JStr (''Error resetting workspace: '' @ e))])"
    by (auto simp: reset_workspace_def split: os_result.splits)
  from 1 2 3 4 5 6 7 show ?thesis by blast
qed

theorem reset_workspace_outcome_witness:
  "fst (reset_workspace
         \<lparr>rmtree_fault = None, makedirs_fault = None, error_text = (\<lambda>k. ''refused'')\<rparr>
         (initial_state ''/srv/agent_workspace'' [(''repo'', Dir [(''README.md'', File)])]))
     = [(''status'', JStr ''success''),
        (''message'', JStr ''Workspace at /srv/agent_workspace has been reset'')] \<and>
   workspace (snd (reset_workspace
         \<lparr>rmtree_fault = None, makedirs_fault = None, error_text = (\<lambda>k. ''refused'')\<rparr>
         (initial_state ''/srv/agent_workspace'' [(''repo'', Dir [(''README.md'', File)])])))
     = Some (Dir []) \<and>
   fst (reset_workspace
         \<lparr>rmtree_fault = Some (''[Errno 13] Permission denied'', Some (Dir [])),
          makedirs_fault = None, error_text = (\<lambda>k. ''refused'')\<rparr>
         (initial_state ''/srv/agent_workspace'' [(''repo'', Dir [(''README.md'', File)])]))
     = [(''status'', JStr ''error''),
        (''message'', JStr ''Error resetting workspace: [Errno 13] Permission denied'')] \<and>
   fst (reset_workspace
         \<lparr>rmtree_fault = None, makedirs_fault = Some ''[Errno 28] No space left on device'',
          error_text = (\<lambda>k. ''refused'')\<rparr>
         (initial_state ''/srv/agent_workspace'' [(''repo'', Dir [(''README.md'', File)])]))
     = [(''status'', JStr ''error''),
        (''message'', JStr ''Error resetting workspace: [Errno 28] No space left on device'')] \<and>
   fst (reset_workspace
         \<lparr>rmtree_fault = None, makedirs_fault = None,
          error_text = (\<lambda>k. ''[Errno 17] File exists'')\<rparr>
         (step (Tool_effect None True) (initial_state ''/srv/agent_workspace'' [])))
     = [(''status'', JStr ''error''),
        (''message'', JStr ''Error resetting workspace: [Errno 17] File exists'')] \<and>
   reset_workspace
         \<lparr>rmtree_fault = None, makedirs_fault = None,
          error_text = (\<lambda>k. ''Cannot call rmtree on a symbolic link'')\<rparr>
         (step (Tool_effect (Some (Dir [(''repo'', File)])) True)
            (initial_state ''/srv/agent_workspace'' []))
     = ([(''status'', JStr ''error''),
         (''message'',
          JStr ''Error resetting workspace: Cannot call rmtree on a symbolic link'')],
        step (Tool_effect (Some (Dir [(''repo'', File)])) True)
            (initial_state ''/srv/agent_workspace'' []))"
proof -
  let ?populated = "initial_state ''/srv/agent_workspace'' [(''repo'', Dir [(''README.md'', File)])]"
  note ok = reset_workspace_outcome
    [where os = "\<lparr>rmtree_fault = None, makedirs_fault = None, error_text = (\<lambda>k. ''refused'')\<rparr>"
       and st = ?populated]
  note rm = reset_workspace_outcome
    [where os = "\<lparr>rmtree_fault = Some (''[Errno 13] Permission denied'', Some (Dir [])),
                  makedirs_fault = None, error_text = (\<lambda>k. ''refused'')\<rparr>"
       and st = ?populated and e = "''[Errno 13] Permission denied''" and left = "Some (Dir [])"]
  note mk = reset_workspace_outcome
    [where os = "\<lparr>rmtree_fault = None, makedirs_fault = Some ''[Errno 28] No space left on device'',
                  error_text = (\<lambda>k. ''refused'')\<rparr>"
       and st = ?populated and e = "''[Errno 28] No space left on device''"
       and after_rmtree = None and left = None]
  note dangling = reset_workspace_outcome
    [where os = "\<lparr>rmtree_fault = None, makedirs_fault = None,
                  error_text = (\<lambda>k. ''[Errno 17] File exists'')\<rparr>"
       and st = "step (Tool_effect None True) (initial_state ''/srv/agent_workspace'' [])"
       and e = "''[Errno 17] File exists''" and left = None]
  note link = reset_workspace_outcome
    [where os = "\<lparr>rmtree_fault = None, makedirs_fault = None,
                  error_text = (\<lambda>k. ''Cannot call rmtree on a symbolic link'')\<rparr>"
       and st = "step (Tool_effect (Some (Dir [(''repo'', File)])) True)
                   (initial_state ''/srv/agent_workspace'' [])"]
  have 1: "fst (reset_workspace
         \<lparr>rmtree_fault = None, makedirs_fault = None, error_text = (\<lambda>k. ''refused'')\<rparr> ?populated)
     = [(''status'', JStr ''success''),
        (''message'', JStr ''Workspace at /srv/agent_workspace has been reset'')]"
    using ok by (simp add: initial_state_def)
  then have 2: "workspace (snd (reset_workspace
         \<lparr>rmtree_fault = None, makedirs_fault = None, error_text = (\<lambda>k. ''refused'')\<rparr> ?populated))
     = Some (Dir [])"
    using ok by simp
  have 3: "fst (reset_workspace
         \<lparr>rmtree_fault = Some (''[Errno 13] Permission denied'', Some (Dir [])),
          makedirs_fault = None, error_text = (\<lambda>k. ''refused'')\<rparr> ?populated)
     = [(''status'', JStr ''error''),
        (''message'', JStr ''Error resetting workspace: [Errno 13] Permission denied'')]"
    using rm by (simp add: initial_state_def rmtree_def)
  have 4: "fst (reset_workspace
         \<lparr>rmtree_fault = None, makedirs_fault = Some ''[Errno 28] No space left on device'',
          error_text = (\<lambda>k. ''refused'')\<rparr> ?populated)
     = [(''status'', JStr ''error''),
        (''message'', JStr ''Error resetting workspace: [Errno 28] No space left on device'')]"
    using mk by (simp add: initial_state_def rmtree_def makedirs_exist_ok_def)
  have 5: "fst (reset_workspace
         \<lparr>rmtree_fault = None, makedirs_fault = None,
          error_text = (\<lambda>k. ''[Errno 17] File exists'')\<rparr>
         (step (Tool_effect None True) (initial_state ''/srv/agent_workspace'' [])))
     = [(''status'', JStr ''error''),
        (''message'', JStr ''Error resetting workspace: [Errno 17] File exists'')]"
    using dangling by (simp add: initial_state_def makedirs_exist_ok_def)
  have 6: "reset_workspace
         \<lparr>rmtree_fault = None, makedirs_fault = None,
          error_text = (\<lambda>k. ''Cannot call rmtree on a symbolic link'')\<rparr>
         (step (Tool_effect (Some (Dir [(''repo'', File)])) True)
            (initial_state ''/srv/agent_workspace'' []))
     = ([(''status'', JStr ''error''),
         (''message'',
          JStr ''Error resetting workspace: Cannot call rmtree on a symbolic link'')],
        step (Tool_effect (Some (Dir [(''repo'', File)])) True)
            (initial_state ''/srv/agent_workspace'' []))"
    using link by (simp add: initial_state_def)
  from 1 2 3 4 5 6 show ?thesis by blast
qed

text \<open>
  C8. \<^verbatim>\<open>reset_workspace\<close> leaves the registry and the scheduled calls as they were,
  whether it succeeds or fails, so every poll answers the same before and after.
\<close>

theorem reset_workspace_keeps_registry:
  "active_tasks (snd (reset_workspace os st)) = active_tasks st \<and>
   scheduled (snd (reset_workspace os st)) = scheduled st \<and>
   get_result query_id (snd (reset_workspace os st)) = get_result query_id st"
  by (auto simp: reset_workspace_def get_result_def split: os_result.splits)

theorem reset_workspace_keeps_registry_witness:
  "get_result ''query_1''
     (snd (reset_workspace \<lparr>rmtree_fault = Some (''PermissionError'', None), makedirs_fault = None,
           error_text = (\<lambda>k. ''refused'')\<rparr>
        (exec [Submit ''deploy''] (initial_state ''/srv/agent_workspace'' []))))
     = [(''status'', JStr ''processing''), (''result'', JNull)]"
  using reset_workspace_keeps_registry
    [where os = "\<lparr>rmtree_fault = Some (''PermissionError'', None), makedirs_fault = None,
           error_text = (\<lambda>k. ''refused'')\<rparr>"
       and st = "exec [Submit ''deploy''] (initial_state ''/srv/agent_workspace'' [])"
       and query_id = "''query_1''"]
  by (simp add: create_query_def Let_def get_result_def initial_state_def str_nat.simps digit_char_def)

text \<open>
  C9, as stated, fails: the answer for an unknown identifier is \<^verbatim>\<open>{status: not_found}\<close>
  and has no \<^verbatim>\<open>result\<close> field.
\<close>

theorem get_result_unknown_counterexample:
  "get_result ''query_999'' (initial_state ''/srv/agent_workspace'' [])
     = [(''status'', JStr ''not_found'')] \<and>
   map_of (get_result ''query_999'' (initial_state ''/srv/agent_workspace'' [])) ''result'' = None"
  by (simp add: get_result_def initial_state_def)

text \<open>
  C9, amended. After any run of events, the answer of \<^verbatim>\<open>get_result\<close> for an identifier
  that no submission returned is exactly \<^verbatim>\<open>{status: not_found}\<close>; for an identifier that
  a submission returned it is \<^verbatim>\<open>{status, result}\<close> with status \<^verbatim>\<open>processing\<close>,
  \<^verbatim>\<open>completed\<close> or \<^verbatim>\<open>error\<close> and a result that is null or a string.
\<close>

theorem get_result_shape:
  "(query_id \<notin> set (issued evs (initial_state dir entries)) \<and>
    get_result query_id (exec evs (initial_state dir entries)) = [(''status'', JStr ''not_found'')]) \<or>
   (query_id \<in> set (issued evs (initial_state dir entries)) \<and>
    (\<exists>s v. get_result query_id (exec evs (initial_state dir entries))
              = [(''status'', JStr s), (''result'', v)] \<and>
           (s = ''processing'' \<or> s = ''completed'' \<or> s = ''error'') \<and>
           (v = JNull \<or> (\<exists>r. v = JStr r))))"
proof (cases "query_id \<in> set (issued evs (initial_state dir entries))")
  case False
  then show ?thesis using get_result_unissued by simp
next
  case True
  let ?st = "exec evs (initial_state dir entries)"
  have wf: "well_formed ?st" by (rule reachable_well_formed)
  from True have "query_id \<in> fst ` set (active_tasks ?st)" by (simp add: issued_initial)
  then obtain task where t: "map_of (active_tasks ?st) query_id = Some task"
    by (metis map_of_eq_None_iff not_Some_eq)
  then have "task \<in> snd ` set (active_tasks ?st)"
    by (metis map_of_SomeD snd_conv image_eqI)
  with wf have "task_shape task" unfolding well_formed_def by blast
  then have "\<exists>s v. task = [(''status'', JStr s), (''result'', v)] \<and>
           (s = ''processing'' \<or> s = ''completed'' \<or> s = ''error'') \<and>
           (v = JNull \<or> (\<exists>r. v = JStr r))"
    unfolding task_shape_def by blast
  with True t show ?thesis by (simp add: get_result_lookup)
qed

theorem get_result_shape_witness:
  "''query_1'' \<in> set (issued [Submit ''deploy''] (initial_state ''/srv/agent_workspace'' [])) \<and>
   get_result ''query_1'' (exec [Submit ''deploy''] (initial_state ''/srv/agent_workspace'' []))
     = [(''status'', JStr ''processing''), (''result'', JNull)]"
  using get_result_shape[where query_id = "''query_1''" and evs = "[Submit ''deploy'']"
      and dir = "''/srv/agent_workspace''" and entries = "[]"]
  by (simp add: create_query_def Let_def get_result_def initial_state_def str_nat.simps digit_char_def)

text \<open>
  C10. For every listing of a directory and every parent path, the list that
  \<^verbatim>\<open>get_directory_tree\<close> returns is a well-formed level of the tree: its names are the
  names of the listing in ascending order, each path is the parent's path joined with
  the name (the name alone under the empty parent path), each directory of the listing
  appears with the tree of its own listing as \<^verbatim>\<open>children\<close>, and each file appears
  with the three fields \<^verbatim>\<open>name\<close>, \<^verbatim>\<open>path\<close>, \<^verbatim>\<open>type\<close> only. The result does not depend on the
  order in which the directory is listed, at any level. \<^verbatim>\<open>workspace_info\<close> returns this
  list for the workspace directory in its field \<^verbatim>\<open>files\<close>, and the empty list when the
  workspace does not exist.
\<close>

theorem workspace_tree_shape:
  "tree_ok rel_path (get_directory_tree path rel_path) \<and>
   map entry_name (get_directory_tree path rel_path) = sort (map fst path) \<and>
   (\<forall>item sub. map_of path item = Some (Dir sub) \<longrightarrow>
      JObj [(''name'', JStr item), (''path'', JStr (child_path rel_path item)),
            (''type'', JStr ''directory''),
            (''children'', JArr (get_directory_tree sub (child_path rel_path item)))]
        \<in> set (get_directory_tree path rel_path)) \<and>
   (\<forall>item. map_of path item = Some File \<longrightarrow>
      JObj [(''name'', JStr item), (''path'', JStr (child_path rel_path item)),
            (''type'', JStr ''file'')]
        \<in> set (get_directory_tree path rel_path)) \<and>
   (same_listing path path' \<longrightarrow>
      get_directory_tree path rel_path = get_directory_tree path' rel_path) \<and>
   (workspace st = Some (Dir path) \<longrightarrow>
      workspace_info st
        = Inr [(''workspace_path'', JStr (workspace_dir st)),
               (''workspace_exists'', JBool True),
               (''files'', JArr (get_directory_tree path []))]) \<and>
   (workspace st = None \<longrightarrow>
      workspace_info st
        = Inr [(''workspace_path'', JStr (workspace_dir st)),
               (''workspace_exists'', JBool False),
               (''files'', JArr [])])"
proof -
  have "workspace st = Some (Dir path) \<longrightarrow>
      workspace_info st
        = Inr [(''workspace_path'', JStr (workspace_dir st)),
               (''workspace_exists'', JBool True),
               (''files'', JArr (get_directory_tree path []))]"
    by (simp add: workspace_info_def)
  moreover have "workspace st = None \<longrightarrow>
      workspace_info st
        = Inr [(''workspace_path'', JStr (workspace_dir st)),
               (''workspace_exists'', JBool False),
               (''files'', JArr [])]"
    by (simp add: workspace_info_def)
  ultimately show ?thesis
    using tree_ok_get_directory_tree tree_names tree_contains_directory tree_contains_file
      same_listing_tree
    by blast
qed

theorem workspace_tree_shape_witness:
  "get_directory_tree [(''b.txt'', File), (''a'', Dir [(''z'', File), (''c'', Dir [])])] []
     = [JObj [(''name'', JStr ''a''), (''path'', JStr ''a''), (''type'', JStr ''directory''),
              (''children'', JArr
                 [JObj [(''name'', JStr ''c''), (''path'', JStr ''a/c''),
                        (''type'', JStr ''directory''), (''children'', JArr [])],
                  JObj [(''name'', JStr ''z''), (''path'', JStr ''a/z''),
                        (''type'', JStr ''file'')]])],
        JObj [(''name'', JStr ''b.txt''), (''path'', JStr ''b.txt''), (''type'', JStr ''file'')]] \<and>
   tree_ok [] (get_directory_tree [(''b.txt'', File), (''a'', Dir [(''z'', File), (''c'', Dir [])])] []) \<and>
   get_directory_tree [(''b.txt'', File), (''a'', Dir [(''z'', File), (''c'', Dir [])])] []
     = get_directory_tree [(''a'', Dir [(''c'', Dir []), (''z'', File)]), (''b.txt'', File)] [] \<and>
   workspace_info
       (initial_state ''/srv/agent_workspace''
          [(''b.txt'', File), (''a'', Dir [(''z'', File), (''c'', Dir [])])])
     = Inr [(''workspace_path'', JStr ''/srv/agent_workspace''),
            (''workspace_exists'', JBool True),
            (''files'', JArr (get_directory_tree
               [(''b.txt'', File), (''a'', Dir [(''z'', File), (''c'', Dir [])])] []))]"
proof -
  have outer: "same_listing [(''b.txt'', File), (''a'', Dir [(''z'', File), (''c'', Dir [])])]
                 [(''a'', Dir [(''c'', Dir []), (''z'', File)]), (''b.txt'', File)]"
    by (auto simp add: same_listing.simps)
  have v: "get_directory_tree [(''b.txt'', File), (''a'', Dir [(''z'', File), (''c'', Dir [])])] []
     = [JObj [(''name'', JStr ''a''), (''path'', JStr ''a''), (''type'', JStr ''directory''),
              (''children'', JArr
                 [JObj [(''name'', JStr ''c''), (''path'', JStr ''a/c''),
                        (''type'', JStr ''directory''), (''children'', JArr [])],
                  JObj [(''name'', JStr ''z''), (''path'', JStr ''a/z''),
                        (''type'', JStr ''file'')]])],
        JObj [(''name'', JStr ''b.txt''), (''path'', JStr ''b.txt''), (''type'', JStr ''file'')]]"
    by (simp add: get_directory_tree.simps path_join_def)
  have w: "workspace (initial_state ''/srv/agent_workspace''
              [(''b.txt'', File), (''a'', Dir [(''z'', File), (''c'', Dir [])])])
             = Some (Dir [(''b.txt'', File), (''a'', Dir [(''z'', File), (''c'', Dir [])])])"
    and d: "workspace_dir (initial_state ''/srv/agent_workspace''
              [(''b.txt'', File), (''a'', Dir [(''z'', File), (''c'', Dir [])])])
             = ''/srv/agent_workspace''"
    by (simp_all add: initial_state_def)
  from outer v w workspace_tree_shape[where rel_path = "[]"
      and path = "[(''b.txt'', File), (''a'', Dir [(''z'', File), (''c'', Dir [])])]"
      and path' = "[(''a'', Dir [(''c'', Dir []), (''z'', File)]), (''b.txt'', File)]"
      and st = "initial_state ''/srv/agent_workspace''
                  [(''b.txt'', File), (''a'', Dir [(''z'', File), (''c'', Dir [])])]"]
  show ?thesis unfolding d by blast
qed

end
